theory Spec2Isabelle
  imports Main "HOL-Library.Log_Nat" "HOL-Library.AList"
begin

section \<open>The FHDL structure module (migen/fhdl/structure.py)\<close>

text \<open>
  A shallow embedding of the intermediate representation built by
  \<^verbatim>\<open>migen/fhdl/structure.py\<close>: bit-vector types, expressions, statements,
  instances, memories and fragments. Python exceptions are values of the type
  \<open>error\<close>; a function that can raise returns \<open>error + 'a\<close>, with \<open>Inl\<close> the
  exception.
\<close>

datatype error =
  KeyError | ValueError | TypeError | AssertionError | IndexError | AttributeError | OverflowError

subsection \<open>Bit-vector types and expressions\<close>

text \<open>\<^verbatim>\<open>class BV\<close>: a width and a signedness.\<close>

datatype BV = BV (width: int) (signed: bool)

type_synonym backtrace = "(string option \<times> nat) list"

text \<open>
  The subclasses of \<^verbatim>\<open>Value\<close>. Operands are stored after coercion by \<^verbatim>\<open>_cst\<close>,
  so they are values. A \<^verbatim>\<open>Signal\<close> carries its object identity (what \<^verbatim>\<open>id(self)\<close>
  returns) and its creation-order index \<^verbatim>\<open>order\<close>.
\<close>

datatype Value =
    Operator string "Value list"
  | Slice Value int int
  | Cat "Value list"
  | Replicate Value int
  | Constant int BV
  | Signal (ident: nat) (sig_bv: BV) (variable: bool) (reset: Value)
      (name_override: "string option") (sig_backtrace: backtrace) (order: int)
  | ArrayProxy "Value list" Value

text \<open>An argument that the source accepts as "an integer or a value".\<close>

datatype operand = Raw int | Val Value

subsection \<open>\<^verbatim>\<open>len\<close>\<close>

text \<open>
  The largest length that Python's \<^verbatim>\<open>len\<close> returns, \<^verbatim>\<open>sys.maxsize\<close>; this is its value
  on a 64-bit interpreter.
\<close>

definition sys_maxsize :: int where
  "sys_maxsize = 2 ^ 63 - 1"

text \<open>
  \<^verbatim>\<open>len(self)\<close>: only \<^verbatim>\<open>Constant\<close> and \<^verbatim>\<open>Signal\<close> define \<^verbatim>\<open>__len__\<close>, as
  \<^verbatim>\<open>self.bv.width\<close>; on every other class \<^verbatim>\<open>len\<close> raises \<^verbatim>\<open>TypeError\<close> (an array
  proxy forwards attributes of its instances, but \<^verbatim>\<open>len\<close> looks \<^verbatim>\<open>__len__\<close> up in the
  class). Python's \<^verbatim>\<open>len\<close> raises \<^verbatim>\<open>ValueError\<close> when \<^verbatim>\<open>__len__\<close> returns a negative
  number and \<^verbatim>\<open>OverflowError\<close> when it returns more than \<^verbatim>\<open>sys.maxsize\<close>.
\<close>

definition checked_len :: "int \<Rightarrow> error + int" where
  "checked_len w =
     (if w < 0 then Inl ValueError
      else if w > sys_maxsize then Inl OverflowError
      else Inr w)"

fun len :: "Value \<Rightarrow> error + int" where
  "len (Constant n b) = checked_len (width b)"
| "len (Signal i b vr rs nm bt ord) = checked_len (width b)"
| "len _ = Inl TypeError"

subsection \<open>\<^verbatim>\<open>bits_for\<close>\<close>

text \<open>
  \<^verbatim>\<open>math.log(n+1, 2)\<close> works on IEEE-754 doubles: the Python integer \<open>n+1\<close> is first
  rounded to the nearest double, which keeps 53 significant bits and rounds ties to the
  even neighbour. \<open>double_of_int\<close> is that rounding, for a positive integer; its result
  is the exact value of the double.
\<close>

definition double_of_int :: "int \<Rightarrow> int" where
  "double_of_int m =
     (let e = bitlen m - 53 in
      if e \<le> 0 then m
      else let p = 2 ^ nat e; q = m div p; r = m mod p in
           (if 2 * r > p \<or> (2 * r = p \<and> odd q) then q + 1 else q) * p)"

text \<open>
  What the C library then computes from the double is not part of this repository:
  the parameter \<open>ceil_log2\<close> stands for \<^verbatim>\<open>int(math.ceil(math.log(x, 2)))\<close> on a
  double \<open>x\<close>. The \<^verbatim>\<open>else\<close> branch of \<^verbatim>\<open>bits_for\<close>, for a Python integer:
\<close>

function bits_for_int :: "(int \<Rightarrow> int) \<Rightarrow> int \<Rightarrow> int" where
  "bits_for_int ceil_log2 n =
     (if n < 0 then bits_for_int ceil_log2 (- n) + 1
      else if n = 0 then 1
      else ceil_log2 (double_of_int (n + 1)))"
  by pat_completeness auto
termination
  by (relation "measure (\<lambda>(_, n). if n < 0 then 1 else 0)") auto

text \<open>
  \<^verbatim>\<open>bits_for(n)\<close>: a \<^verbatim>\<open>Constant\<close> answers with \<^verbatim>\<open>len(n)\<close>, its declared width. Any
  other value reaches \<^verbatim>\<open>bits_for(-n)\<close> (the comparison \<^verbatim>\<open>n < 0\<close> of a value builds an
  operator node, which is true), and negating a value raises \<^verbatim>\<open>TypeError\<close>.
\<close>

fun bits_for :: "(int \<Rightarrow> int) \<Rightarrow> operand \<Rightarrow> error + int" where
  "bits_for ceil_log2 (Val (Constant n b)) = len (Constant n b)"
| "bits_for ceil_log2 (Val _) = Inl TypeError"
| "bits_for ceil_log2 (Raw n) = Inr (bits_for_int ceil_log2 n)"

subsection \<open>Constants and coercion\<close>

text \<open>\<^verbatim>\<open>Constant.__init__(n, bv=None)\<close>: \<^verbatim>\<open>self.bv = bv or BV(bits_for(n), n < 0)\<close>.\<close>

definition Constant_init :: "(int \<Rightarrow> int) \<Rightarrow> int \<Rightarrow> BV option \<Rightarrow> Value" where
  "Constant_init ceil_log2 n b =
     (case b of
        Some b' \<Rightarrow> Constant n b'
      | None \<Rightarrow> Constant n (BV (bits_for_int ceil_log2 n) (n < 0)))"

text \<open>\<^verbatim>\<open>_cst(x)\<close>: an integer becomes \<^verbatim>\<open>Constant(x)\<close>, anything else is returned as it is.\<close>

fun cst :: "(int \<Rightarrow> int) \<Rightarrow> operand \<Rightarrow> Value" where
  "cst ceil_log2 (Raw x) = Constant_init ceil_log2 x None"
| "cst ceil_log2 (Val x) = x"

text \<open>The constructors that coerce their arguments.\<close>

definition Operator_init :: "(int \<Rightarrow> int) \<Rightarrow> string \<Rightarrow> operand list \<Rightarrow> Value" where
  "Operator_init ceil_log2 opr operands = Operator opr (map (cst ceil_log2) operands)"

definition Cat_init :: "(int \<Rightarrow> int) \<Rightarrow> operand list \<Rightarrow> Value" where
  "Cat_init ceil_log2 args = Cat (map (cst ceil_log2) args)"

definition Replicate_init :: "(int \<Rightarrow> int) \<Rightarrow> operand \<Rightarrow> int \<Rightarrow> Value" where
  "Replicate_init ceil_log2 v n = Replicate (cst ceil_log2 v) n"

subsection \<open>Statements\<close>

text \<open>
  The statement classes \<^verbatim>\<open>_Assign\<close>, \<^verbatim>\<open>If\<close> and \<^verbatim>\<open>Case\<close>. An \<^verbatim>\<open>If\<close> has the
  fields \<^verbatim>\<open>cond\<close>, \<^verbatim>\<open>t\<close> and \<^verbatim>\<open>f\<close>; a \<^verbatim>\<open>Case\<close> has \<^verbatim>\<open>test\<close>, \<^verbatim>\<open>cases\<close> (pairs of
  the first element of an arm and the list of the others) and \<^verbatim>\<open>default\<close>. The
  elements of an arm handed to \<^verbatim>\<open>Case\<close> are arbitrary objects: a \<^verbatim>\<open>Default\<close> instance,
  a value or a statement.
\<close>

datatype stmt =
    Assign Value Value
  | If_stmt Value "stmt list" "stmt list"
  | Case_stmt Value "(pyobj \<times> pyobj list) list" "pyobj list"
and pyobj = Default | Obj_Value Value | Obj_stmt stmt

text \<open>\<^verbatim>\<open>_Assign.__init__(l, r)\<close> and \<^verbatim>\<open>Value.eq(r)\<close>.\<close>

definition Assign_init :: "(int \<Rightarrow> int) \<Rightarrow> Value \<Rightarrow> operand \<Rightarrow> stmt" where
  "Assign_init ceil_log2 lv r = Assign lv (cst ceil_log2 r)"

definition Value_eq :: "(int \<Rightarrow> int) \<Rightarrow> Value \<Rightarrow> operand \<Rightarrow> stmt" where
  "Value_eq ceil_log2 self r = Assign_init ceil_log2 self r"

subsection \<open>Indexing and slicing\<close>

text \<open>
  The key of a subscript: an integer, a slice object with its three optional fields,
  or anything else.
\<close>

datatype key = IntKey int | SliceKey (start: "int option") (stop: "int option") (step: "int option") | OtherKey

text \<open>Python's \<^verbatim>\<open>x or d\<close> on an optional integer: \<^verbatim>\<open>None\<close> and \<open>0\<close> are both false.\<close>

fun or_default :: "int option \<Rightarrow> int \<Rightarrow> int" where
  "or_default None d = d"
| "or_default (Some x) d = (if x = 0 then d else x)"

text \<open>
  The subscript \<^verbatim>\<open>self[key]\<close>. On an array proxy it is \<^verbatim>\<open>_ArrayProxy.__getitem__\<close>:
  the list comprehension applies the subscript to each choice in turn, the first
  exception ending it, and the results form a new array proxy with the same key. On
  every other value it is \<^verbatim>\<open>Value.__getitem__\<close>; in its slice branch \<^verbatim>\<open>len(self)\<close> is
  evaluated in the comparison in any case, and the step is looked at after that.
\<close>

fun getitem :: "Value \<Rightarrow> key \<Rightarrow> error + Value"
  and getitem_choices :: "Value list \<Rightarrow> key \<Rightarrow> error + Value list" where
  "getitem (ArrayProxy choices k) key =
     (case getitem_choices choices key of
        Inl e \<Rightarrow> Inl e
      | Inr rs \<Rightarrow> Inr (ArrayProxy rs k))"
| "getitem self (IntKey i) = Inr (Slice self i (i + 1))"
| "getitem self (SliceKey a b s) =
     (case len self of
        Inl e \<Rightarrow> Inl e
      | Inr w \<Rightarrow>
          (let start = or_default a 0;
               stop = or_default b w;
               stop = (if stop > w then w else stop)
           in if s \<noteq> None then Inl KeyError else Inr (Slice self start stop)))"
| "getitem self OtherKey = Inl KeyError"
| "getitem_choices [] key = Inr []"
| "getitem_choices (c # cs) key =
     (case getitem c key of
        Inl e \<Rightarrow> Inl e
      | Inr r \<Rightarrow>
          (case getitem_choices cs key of
             Inl e \<Rightarrow> Inl e
           | Inr rs \<Rightarrow> Inr (r # rs)))"

subsection \<open>Signals\<close>









subsection \<open>Conditionals\<close>

text \<open>\<^verbatim>\<open>If.__init__(cond, *t)\<close>: the false branch starts empty.\<close>

definition If_init :: "Value \<Rightarrow> stmt list \<Rightarrow> stmt" where
  "If_init cond t = If_stmt cond t []"

text \<open>
  \<^verbatim>\<open>_insert_else(obj, clause)\<close>. The loop follows \<^verbatim>\<open>o.f[0]\<close> while \<^verbatim>\<open>o.f\<close> is not empty,
  asserting that \<^verbatim>\<open>o.f\<close> has one element and that this element is an \<^verbatim>\<open>If\<close>; then it
  assigns \<^verbatim>\<open>o.f = clause\<close>. The assignment is in place; the model returns the updated
  tree. An object without a field \<^verbatim>\<open>f\<close> raises \<^verbatim>\<open>AttributeError\<close>.
\<close>

fun insert_else :: "stmt \<Rightarrow> stmt list \<Rightarrow> error + stmt" where
  "insert_else (If_stmt c t []) clause = Inr (If_stmt c t clause)"
| "insert_else (If_stmt c t [If_stmt c' t' f']) clause =
     (case insert_else (If_stmt c' t' f') clause of
        Inl e \<Rightarrow> Inl e
      | Inr o' \<Rightarrow> Inr (If_stmt c t [o']))"
| "insert_else (If_stmt c t (x # xs)) clause = Inl AssertionError"
| "insert_else _ clause = Inl AttributeError"

text \<open>\<^verbatim>\<open>If.Else(*f)\<close> and \<^verbatim>\<open>If.Elif(cond, *t)\<close>; both return \<^verbatim>\<open>self\<close>.\<close>

definition Else :: "stmt \<Rightarrow> stmt list \<Rightarrow> error + stmt" where
  "Else self f = insert_else self f"

definition Elif :: "stmt \<Rightarrow> Value \<Rightarrow> stmt list \<Rightarrow> error + stmt" where
  "Elif self cond t = insert_else self [If_init cond t]"

subsection \<open>Case\<close>

text \<open>
  \<^verbatim>\<open>c[0]\<close> and \<^verbatim>\<open>c[1:]\<close> on an arm: the first raises \<^verbatim>\<open>IndexError\<close> on an empty arm.
\<close>

fun is_Default :: "pyobj \<Rightarrow> bool" where
  "is_Default Default = True"
| "is_Default _ = False"

text \<open>
  The list comprehension
  \<^verbatim>\<open>[(c[0], list(c[1:])) for c in cases if not isinstance(c[0], Default)]\<close>.
\<close>

fun match_arms :: "pyobj list list \<Rightarrow> error + (pyobj \<times> pyobj list) list" where
  "match_arms [] = Inr []"
| "match_arms ([] # cs) = Inl IndexError"
| "match_arms ((x # xs) # cs) =
     (case match_arms cs of
        Inl e \<Rightarrow> Inl e
      | Inr r \<Rightarrow> Inr (if is_Default x then r else (x, xs) # r))"

text \<open>
  The loop that looks for the default arm; \<open>d\<close> is \<^verbatim>\<open>self.default\<close>, \<open>None\<close> until a
  default arm has been seen.
\<close>

fun find_default :: "pyobj list option \<Rightarrow> pyobj list list \<Rightarrow> error + pyobj list option" where
  "find_default d [] = Inr d"
| "find_default d ([] # cs) = Inl IndexError"
| "find_default d ((x # xs) # cs) =
     (if is_Default x then
        (if d \<noteq> None then Inl ValueError else find_default (Some xs) cs)
      else find_default d cs)"

text \<open>\<^verbatim>\<open>Case.__init__(test, *cases)\<close>.\<close>

definition Case_init :: "Value \<Rightarrow> pyobj list list \<Rightarrow> error + stmt" where
  "Case_init test cs =
     (case match_arms cs of
        Inl e \<Rightarrow> Inl e
      | Inr arms \<Rightarrow>
          (case find_default None cs of
             Inl e \<Rightarrow> Inl e
           | Inr None \<Rightarrow> Inr (Case_stmt test arms [])
           | Inr (Some d) \<Rightarrow> Inr (Case_stmt test arms d)))"

subsection \<open>Instances and memories\<close>

text \<open>
  The items of an \<^verbatim>\<open>Instance\<close>: the subclasses of \<^verbatim>\<open>_IO\<close>, \<^verbatim>\<open>Parameter\<close>, and the
  subclasses \<^verbatim>\<open>ClockPort\<close> and \<^verbatim>\<open>ResetPort\<close> of \<^verbatim>\<open>_CR\<close>, with the fields
  \<^verbatim>\<open>name_inst\<close> and \<^verbatim>\<open>domain\<close>.
\<close>

datatype item =
    Input string Value
  | Output string Value
  | InOut string Value
  | Parameter string operand
  | ClockPort (name_inst: string) (domain: string)
  | ResetPort (name_inst: string) (domain: string)

text \<open>\<^verbatim>\<open>isinstance(x, Instance._CR)\<close>.\<close>

fun is_CR :: "item \<Rightarrow> bool" where
  "is_CR (ClockPort n d) = True"
| "is_CR (ResetPort n d) = True"
| "is_CR _ = False"

record Instance =
  inst_of :: string
  inst_name_override :: string
  items :: "item list"

record MemoryPort =
  adr :: Value
  dat_r :: Value
  we :: "Value option"
  dat_w :: "Value option"
  async_read :: bool
  re :: "Value option"
  we_granularity :: int
  mode :: int
  clock_domain :: string

record Memory =
  mem_width :: int
  depth :: int
  ports :: "MemoryPort list"
  init :: "int list option"

subsection \<open>Fragments: clock domains\<close>

text \<open>
  The contents of a \<^verbatim>\<open>Fragment\<close>. The dict \<^verbatim>\<open>sync\<close> is an association list with one
  entry for each key, in the order of the dict; \<open>sync_defaultdict\<close> says whether it
  is a \<^verbatim>\<open>defaultdict(list)\<close>, as the one that \<^verbatim>\<open>__add__\<close> builds is, or a plain dict.
  The simulation hooks in \<^verbatim>\<open>sim\<close> are callables, which nothing here looks into.
\<close>

typedecl hook

record Fragment =
  comb :: "stmt list"
  sync :: "(string \<times> stmt list) list"
  sync_defaultdict :: bool
  instances :: "Instance list"
  memories :: "Memory list"
  sim :: "hook list"

text \<open>
  The bodies of the two iterations of \<^verbatim>\<open>rename_clock_domain\<close>: the assignment to \<^verbatim>\<open>cr.domain\<close> for
  a clock or reset item of an instance, and to \<^verbatim>\<open>port.clock_domain\<close> for a port of a
  memory. The source assigns in place; the model returns the updated objects.
\<close>

fun rename_item :: "string \<Rightarrow> string \<Rightarrow> item \<Rightarrow> item" where
  "rename_item old new (ClockPort n d) = ClockPort n (if d = old then new else d)"
| "rename_item old new (ResetPort n d) = ResetPort n (if d = old then new else d)"
| "rename_item old new x = x"

definition rename_instance :: "string \<Rightarrow> string \<Rightarrow> Instance \<Rightarrow> Instance" where
  "rename_instance old new inst = inst\<lparr>items := map (rename_item old new) (items inst)\<rparr>"

definition rename_port :: "string \<Rightarrow> string \<Rightarrow> MemoryPort \<Rightarrow> MemoryPort" where
  "rename_port old new port =
     (if clock_domain port = old then port\<lparr>clock_domain := new\<rparr> else port)"

definition rename_memory :: "string \<Rightarrow> string \<Rightarrow> Memory \<Rightarrow> Memory" where
  "rename_memory old new mem = mem\<lparr>ports := map (rename_port old new) (ports mem)\<rparr>"

text \<open>
  \<^verbatim>\<open>self.sync[k]\<close>: on a plain dict a key that the dict does not have raises
  \<^verbatim>\<open>KeyError\<close>; a \<^verbatim>\<open>defaultdict(list)\<close> binds such a key to a new empty list and
  returns that. The result is the value and the dict after the access.
\<close>

definition sync_getitem ::
  "Fragment \<Rightarrow> string \<Rightarrow> error + (stmt list \<times> (string \<times> stmt list) list)" where
  "sync_getitem self k =
     (case map_of (sync self) k of
        Some v \<Rightarrow> Inr (v, sync self)
      | None \<Rightarrow>
          (if sync_defaultdict self then Inr ([], AList.update k [] (sync self))
           else Inl KeyError))"

text \<open>
  \<^verbatim>\<open>Fragment.rename_clock_domain(old, new)\<close>. Its first two statements are
  \<^verbatim>\<open>self.sync["new"] = self.sync["old"]\<close> and \<^verbatim>\<open>del self.sync["old"]\<close>, with the
  string literals \<^verbatim>\<open>"new"\<close> and \<^verbatim>\<open>"old"\<close> as keys. A \<^verbatim>\<open>KeyError\<close> of the first is
  raised before anything has been changed.
\<close>

definition rename_clock_domain :: "Fragment \<Rightarrow> string \<Rightarrow> string \<Rightarrow> error + Fragment" where
  "rename_clock_domain self old new =
     (case sync_getitem self ''old'' of
        Inl e \<Rightarrow> Inl e
      | Inr (v, sync0) \<Rightarrow>
          (let sync1 = AList.update ''new'' v sync0;
               sync2 = AList.delete ''old'' sync1
           in Inr (self\<lparr>sync := sync2,
                        instances := map (rename_instance old new) (instances self),
                        memories := map (rename_memory old new) (memories self)\<rparr>)))"

text \<open>\<^verbatim>\<open>Fragment.get_clock_domains()\<close>: a set built from three generators.\<close>

definition get_clock_domains :: "Fragment \<Rightarrow> string set" where
  "get_clock_domains self =
     (let r = set (map fst (sync self));
          r = r \<union> set (concat (map (\<lambda>inst. map domain (filter is_CR (items inst))) (instances self)));
          r = r \<union> set (concat (map (\<lambda>mem. map clock_domain (ports mem)) (memories self)))
      in r)"

subsection \<open>Fragments: merging, on a store of containers\<close>

text \<open>
  \<^verbatim>\<open>Fragment.__add__\<close> builds new lists and a new dict from those of its operands.
  To see which containers it writes to, lists and dicts are objects in a store,
  addressed by references: \<open>list_at\<close> and \<open>dict_at\<close> give the list and the dict at a
  reference, and \<open>next_ref\<close> is the first reference not yet in use. The
  elements of the lists (statements, instances, memories, hooks) are not looked into
  by \<^verbatim>\<open>__add__\<close> and have the type \<open>'a\<close>. A dict maps each of its keys to the reference
  of a list.
\<close>

record 'a store =
  list_at :: "nat \<Rightarrow> 'a list"
  dict_at :: "nat \<Rightarrow> (string \<times> nat) list"
  next_ref :: nat

text \<open>A \<^verbatim>\<open>Fragment\<close> object: its five fields hold references.\<close>

record Fragment_obj =
  comb_ref :: nat
  sync_ref :: nat
  instances_ref :: nat
  memories_ref :: nat
  sim_ref :: nat

text \<open>Creating a list (\<^verbatim>\<open>[]\<close>, \<^verbatim>\<open>v[:]\<close>, \<^verbatim>\<open>a + b\<close>, \<^verbatim>\<open>list()\<close>) or a dict.\<close>

definition new_list :: "'a store \<Rightarrow> 'a list \<Rightarrow> 'a store \<times> nat" where
  "new_list st xs =
     (st\<lparr>list_at := (list_at st)(next_ref st := xs), next_ref := Suc (next_ref st)\<rparr>, next_ref st)"

definition new_dict :: "'a store \<Rightarrow> (string \<times> nat) list \<Rightarrow> 'a store \<times> nat" where
  "new_dict st kvs =
     (st\<lparr>dict_at := (dict_at st)(next_ref st := kvs), next_ref := Suc (next_ref st)\<rparr>, next_ref st)"

text \<open>\<^verbatim>\<open>d[k] = r\<close> on the dict at \<open>d\<close>.\<close>

definition dict_setitem :: "'a store \<Rightarrow> nat \<Rightarrow> string \<Rightarrow> nat \<Rightarrow> 'a store" where
  "dict_setitem st d k r = st\<lparr>dict_at := (dict_at st)(d := AList.update k r (dict_at st d))\<rparr>"

text \<open>
  \<^verbatim>\<open>d[k]\<close> on a \<^verbatim>\<open>defaultdict(list)\<close>: a missing key is first bound to a new empty
  list.
\<close>

definition defaultdict_getitem :: "'a store \<Rightarrow> nat \<Rightarrow> string \<Rightarrow> 'a store \<times> nat" where
  "defaultdict_getitem st d k =
     (case map_of (dict_at st d) k of
        Some r \<Rightarrow> (st, r)
      | None \<Rightarrow> (let (st1, r) = new_list st [] in (dict_setitem st1 d k r, r)))"

text \<open>\<^verbatim>\<open>l.extend(v)\<close>: the list at \<open>l\<close> is changed in place.\<close>

definition list_extend :: "'a store \<Rightarrow> nat \<Rightarrow> nat \<Rightarrow> 'a store" where
  "list_extend st l v = st\<lparr>list_at := (list_at st)(l := list_at st l @ list_at st v)\<rparr>"

text \<open>The loop \<^verbatim>\<open>for k, v in self.sync.items(): newsync[k] = v[:]\<close>.\<close>

fun copy_items :: "'a store \<Rightarrow> nat \<Rightarrow> (string \<times> nat) list \<Rightarrow> 'a store" where
  "copy_items st newsync [] = st"
| "copy_items st newsync ((k, v) # kvs) =
     (let (st1, r) = new_list st (list_at st v)
      in copy_items (dict_setitem st1 newsync k r) newsync kvs)"

text \<open>The loop \<^verbatim>\<open>for k, v in other.sync.items(): newsync[k].extend(v)\<close>.\<close>

fun extend_items :: "'a store \<Rightarrow> nat \<Rightarrow> (string \<times> nat) list \<Rightarrow> 'a store" where
  "extend_items st newsync [] = st"
| "extend_items st newsync ((k, v) # kvs) =
     (let (st1, l) = defaultdict_getitem st newsync k
      in extend_items (list_extend st1 l v) newsync kvs)"

text \<open>
  \<^verbatim>\<open>Fragment.__init__\<close>: an argument that is \<^verbatim>\<open>None\<close> is replaced by a new empty
  container, and a list given for \<^verbatim>\<open>sync\<close> by a new dict that binds \<^verbatim>\<open>"sys"\<close> to it.
\<close>

datatype sync_arg = Sync_dict nat | Sync_list nat

definition or_new_list :: "'a store \<Rightarrow> nat option \<Rightarrow> 'a store \<times> nat" where
  "or_new_list st a = (case a of None \<Rightarrow> new_list st [] | Some r \<Rightarrow> (st, r))"

definition Fragment_init ::
  "'a store \<Rightarrow> nat option \<Rightarrow> sync_arg option \<Rightarrow> nat option \<Rightarrow> nat option \<Rightarrow> nat option
     \<Rightarrow> 'a store \<times> Fragment_obj" where
  "Fragment_init st comb_a sync_a instances_a memories_a sim_a =
     (let (st, c) = or_new_list st comb_a;
          (st, s) = (case sync_a of
                       None \<Rightarrow> (let (st', d) = new_dict st [] in (st', Sync_dict d))
                     | Some s' \<Rightarrow> (st, s'));
          (st, i) = or_new_list st instances_a;
          (st, m) = or_new_list st memories_a;
          (st, h) = or_new_list st sim_a;
          (st, d) = (case s of
                       Sync_list l \<Rightarrow> new_dict st [(''sys'', l)]
                     | Sync_dict d' \<Rightarrow> (st, d'))
      in (st, \<lparr>comb_ref = c, sync_ref = d, instances_ref = i, memories_ref = m, sim_ref = h\<rparr>))"

text \<open>\<^verbatim>\<open>Fragment.__add__(self, other)\<close>.\<close>

definition Fragment_add :: "'a store \<Rightarrow> Fragment_obj \<Rightarrow> Fragment_obj \<Rightarrow> 'a store \<times> Fragment_obj" where
  "Fragment_add st self other =
     (let (st, newsync) = new_dict st [];
          st = copy_items st newsync (dict_at st (sync_ref self));
          st = extend_items st newsync (dict_at st (sync_ref other));
          (st, c) = new_list st (list_at st (comb_ref self) @ list_at st (comb_ref other));
          (st, i) = new_list st (list_at st (instances_ref self) @ list_at st (instances_ref other));
          (st, m) = new_list st (list_at st (memories_ref self) @ list_at st (memories_ref other));
          (st, h) = new_list st (list_at st (sim_ref self) @ list_at st (sim_ref other))
      in Fragment_init st (Some c) (Some (Sync_dict newsync)) (Some i) (Some m) (Some h))"

subsection \<open>Notions used in the statements\<close>

text \<open>
  The notions below are not functions of the source; they say in which terms the
  properties of subscripts, of signals, of \<^verbatim>\<open>Case\<close>, of the conditional chain and of
  the merge of fragments are stated.

  An arm of a \<^verbatim>\<open>Case\<close> that is a match arm: it is not empty and its first element is
  not a \<^verbatim>\<open>Default\<close>.
\<close>

fun match_arm :: "pyobj list \<Rightarrow> bool" where
  "match_arm [] = False"
| "match_arm (x # xs) = (\<not> is_Default x)"

text \<open>
  The kinds of expression, as far as a subscript tells them apart: a constant or a
  signal whose declared width \<^verbatim>\<open>bv.width\<close> is \<open>w\<close> (the two classes that define
  \<^verbatim>\<open>__len__\<close>); an operator, slice, concatenation or replication (which define none);
  an array proxy.
\<close>

fun Constant_or_Signal :: "Value \<Rightarrow> int \<Rightarrow> bool" where
  "Constant_or_Signal (Constant n b) w = (width b = w)"
| "Constant_or_Signal (Signal i b vr rs nm bt ord) w = (width b = w)"
| "Constant_or_Signal _ w = False"

fun without_len :: "Value \<Rightarrow> bool" where
  "without_len (Operator opr xs) = True"
| "without_len (Slice v a b) = True"
| "without_len (Cat xs) = True"
| "without_len (Replicate v n) = True"
| "without_len _ = False"

fun is_ArrayProxy :: "Value \<Rightarrow> bool" where
  "is_ArrayProxy (ArrayProxy choices k) = True"
| "is_ArrayProxy _ = False"



text \<open>
  The chain of an \<^verbatim>\<open>If\<close> node: a node whose false branch is exactly one \<^verbatim>\<open>If\<close> is a
  link, and the chain goes on in that \<^verbatim>\<open>If\<close>; the first node whose false branch is
  anything else (empty, a statement that is not an \<^verbatim>\<open>If\<close>, or several statements) is
  the terminal node. \<open>links\<close> lists the condition and the true branch of every node of
  the chain, \<open>terminal_slot\<close> is the false branch of the terminal node, and \<open>chain\<close>
  builds the statement list that holds a chain with the given links and the given
  terminal false branch.
\<close>

fun links :: "stmt \<Rightarrow> (Value \<times> stmt list) list" where
  "links (If_stmt c t [If_stmt c' t' f']) = (c, t) # links (If_stmt c' t' f')"
| "links (If_stmt c t f) = [(c, t)]"
| "links _ = []"

fun terminal_slot :: "stmt \<Rightarrow> stmt list" where
  "terminal_slot (If_stmt c t [If_stmt c' t' f']) = terminal_slot (If_stmt c' t' f')"
| "terminal_slot (If_stmt c t f) = f"
| "terminal_slot _ = []"

fun chain :: "(Value \<times> stmt list) list \<Rightarrow> stmt list \<Rightarrow> stmt list" where
  "chain [] f = f"
| "chain ((c, t) # ls) f = [If_stmt c t (chain ls f)]"

text \<open>
  For the merge of fragments. \<open>dict_lookup\<close> reads the list bound to a key in a dict of
  the store, \<open>sync_keys\<close> is the set of keys of the \<^verbatim>\<open>sync\<close> dict of a fragment, and
  \<open>sync_list\<close> is the list bound to a key there, the empty list for a key that the
  dict does not have.
\<close>

definition dict_lookup :: "'a store \<Rightarrow> nat \<Rightarrow> string \<Rightarrow> 'a list option" where
  "dict_lookup st d k = map_option (list_at st) (map_of (dict_at st d) k)"

definition sync_keys :: "'a store \<Rightarrow> Fragment_obj \<Rightarrow> string set" where
  "sync_keys st f = fst ` set (dict_at st (sync_ref f))"

definition sync_list :: "'a store \<Rightarrow> Fragment_obj \<Rightarrow> string \<Rightarrow> 'a list" where
  "sync_list st f k = (case dict_lookup st (sync_ref f) k of None \<Rightarrow> [] | Some l \<Rightarrow> l)"

text \<open>
  The containers of a fragment are its four lists, its dict and the lists bound in the
  dict. A fragment is well formed in a store when its containers have been created
  (their references are below \<open>next_ref\<close>) and its dict has one entry for each key.
\<close>

definition containers :: "'a store \<Rightarrow> Fragment_obj \<Rightarrow> nat set" where
  "containers st f =
     {comb_ref f, sync_ref f, instances_ref f, memories_ref f, sim_ref f}
     \<union> snd ` set (dict_at st (sync_ref f))"

definition well_formed :: "'a store \<Rightarrow> Fragment_obj \<Rightarrow> bool" where
  "well_formed st f \<longleftrightarrow>
     (\<forall>r \<in> containers st f. r < next_ref st) \<and> distinct (map fst (dict_at st (sync_ref f)))"

text \<open>
  The invariant of the two iterations of \<^verbatim>\<open>__add__\<close>, for the new dict at \<open>d\<close>: it has
  one entry for each key, no list is bound to two keys, and the lists bound in it
  were created after it.
\<close>

definition owns :: "'a store \<Rightarrow> nat \<Rightarrow> bool" where
  "owns st d \<longleftrightarrow>
     d < next_ref st \<and> distinct (map fst (dict_at st d)) \<and> distinct (map snd (dict_at st d))
     \<and> (\<forall>r \<in> snd ` set (dict_at st d). d < r \<and> r < next_ref st)"

text \<open>
  A store with the containers of two fragments, whose elements are numbers: the first
  has \<^verbatim>\<open>comb = [1]\<close> and \<^verbatim>\<open>sync = {"sys": [10]}\<close>, the second \<^verbatim>\<open>comb = [2]\<close> and
  \<^verbatim>\<open>sync = {"sys": [20], "pix": [30]}\<close>.
\<close>

definition example_store :: "nat store" where
  "example_store =
     \<lparr>list_at = (\<lambda>r. [])(0 := [1], 2 := [10], 6 := [2], 8 := [20], 9 := [30]),
      dict_at = (\<lambda>r. [])(1 := [(''sys'', 2)], 7 := [(''sys'', 8), (''pix'', 9)]),
      next_ref = 13\<rparr>"

definition example_f1 :: Fragment_obj where
  "example_f1 = \<lparr>comb_ref = 0, sync_ref = 1, instances_ref = 3, memories_ref = 4, sim_ref = 5\<rparr>"

definition example_f2 :: Fragment_obj where
  "example_f2 = \<lparr>comb_ref = 6, sync_ref = 7, instances_ref = 10, memories_ref = 11, sim_ref = 12\<rparr>"

section \<open>Properties\<close>

subsection \<open>Coercion of integers\<close>

text \<open>
  Claim C9. An integer \<open>n\<close> that \<^verbatim>\<open>_cst\<close> coerces becomes the constant \<open>n\<close> of the type
  \<^verbatim>\<open>BV(bits_for(n), n < 0)\<close>: its signedness is \<open>n < 0\<close>, so a non-negative integer
  gives an unsigned constant and a negative one a signed constant, and its width is
  what \<^verbatim>\<open>bits_for\<close> returns for \<open>n\<close>. This is what an operator, \<^verbatim>\<open>Cat\<close>,
  \<^verbatim>\<open>Replicate\<close> and an assignment store for an integer argument, at the place of
  that argument.
\<close>

theorem raw_integer_coercion:
  "bits_for L (Raw n) = Inr (bits_for_int L n)
   \<and> cst L (Raw n) = Constant n (BV (bits_for_int L n) (n < 0))
   \<and> Operator_init L opr (xs @ Raw n # ys) =
       Operator opr (map (cst L) xs @ Constant n (BV (bits_for_int L n) (n < 0)) # map (cst L) ys)
   \<and> Cat_init L (xs @ Raw n # ys) =
       Cat (map (cst L) xs @ Constant n (BV (bits_for_int L n) (n < 0)) # map (cst L) ys)
   \<and> Replicate_init L (Raw n) k = Replicate (Constant n (BV (bits_for_int L n) (n < 0))) k
   \<and> Assign_init L lv (Raw n) = Assign lv (Constant n (BV (bits_for_int L n) (n < 0)))
   \<and> Value_eq L lv (Raw n) = Assign lv (Constant n (BV (bits_for_int L n) (n < 0)))"
  by (simp add: Constant_init_def Operator_init_def Cat_init_def Replicate_init_def
        Assign_init_def Value_eq_def del: bits_for_int.simps)

subsection \<open>Slicing\<close>

lemma len_Constant_or_Signal:
  "Constant_or_Signal e w \<Longrightarrow> 0 \<le> w \<Longrightarrow> w \<le> sys_maxsize \<Longrightarrow> len e = Inr w"
  by (cases e) (auto simp: checked_len_def)

lemma len_without: "without_len e \<Longrightarrow> len e = Inl TypeError"
  by (cases e) auto

lemma getitem_IntKey: "\<not> is_ArrayProxy e \<Longrightarrow> getitem e (IntKey i) = Inr (Slice e i (i + 1))"
  by (cases e) auto

lemma getitem_SliceKey:
  "\<not> is_ArrayProxy e \<Longrightarrow>
   getitem e (SliceKey a b s) =
     (case len e of
        Inl er \<Rightarrow> Inl er
      | Inr w \<Rightarrow>
          (if s \<noteq> None then Inl KeyError
           else Inr (Slice e (or_default a 0)
                      (if or_default b w > w then w else or_default b w))))"
  by (cases e) (auto simp: Let_def split: sum.splits)

lemma getitem_choices_all:
  "getitem_choices cs key = Inr rs \<longleftrightarrow> list_all2 (\<lambda>c r. getitem c key = Inr r) cs rs"
proof (induction cs arbitrary: rs)
  case Nil
  then show ?case by auto
next
  case (Cons c cs)
  show ?case
  proof (cases rs)
    case Nil
    then show ?thesis by (auto split: sum.splits)
  next
    case (Cons r rs')
    with Cons.IH [of rs'] show ?thesis by (auto split: sum.splits)
  qed
qed

text \<open>
  Claim C10 as it is stated, for every expression of width \<open>w > 0\<close>, fails on a
  concatenation of two 4-bit constants, whose width is 8: \<^verbatim>\<open>Cat\<close> defines no
  \<^verbatim>\<open>__len__\<close>, and the slice \<^verbatim>\<open>e[1:0]\<close> raises \<^verbatim>\<open>TypeError\<close>. It also fails on a constant
  whose declared width is above \<^verbatim>\<open>sys.maxsize\<close>, where \<^verbatim>\<open>len\<close> raises \<^verbatim>\<open>OverflowError\<close>.
\<close>

theorem getitem_zero_stop_counterexample:
  "getitem (Cat [Constant 0 (BV 4 False), Constant 0 (BV 4 False)]) (SliceKey (Some 1) (Some 0) None)
     = Inl TypeError
   \<and> getitem (Constant 0 (BV (2 ^ 63) False)) (SliceKey (Some 1) (Some 0) None)
     = Inl OverflowError"
  by (simp add: checked_len_def sys_maxsize_def)

text \<open>
  Claim C10, amended. For a constant or a signal \<open>e\<close> whose declared width \<open>w\<close> is
  positive and at most \<^verbatim>\<open>sys.maxsize\<close>, the slice \<^verbatim>\<open>e[a:0]\<close> is the slice from \<open>a\<close> to
  \<open>w\<close>, as \<^verbatim>\<open>e[a:]\<close> is, and not the empty slice from \<open>a\<close> to \<open>0\<close>; an omitted start
  is treated as the start \<open>0\<close>.
\<close>

theorem getitem_zero_stop:
  assumes "Constant_or_Signal e w" and "0 < w" and "w \<le> sys_maxsize"
  shows "getitem e (SliceKey (Some a) (Some 0) None) = Inr (Slice e a w)
       \<and> getitem e (SliceKey (Some a) (Some 0) None) \<noteq> Inr (Slice e a 0)
       \<and> getitem e (SliceKey (Some a) None None) = Inr (Slice e a w)
       \<and> getitem e (SliceKey None b None) = getitem e (SliceKey (Some 0) b None)
       \<and> getitem e (SliceKey None (Some 0) None) = Inr (Slice e 0 w)
       \<and> getitem e (SliceKey None None None) = Inr (Slice e 0 w)"
proof -
  from assms have l: "len e = Inr w" by (simp add: len_Constant_or_Signal)
  from assms(1) have p: "\<not> is_ArrayProxy e" by (cases e) auto
  from l assms(2) show ?thesis by (simp add: getitem_SliceKey [OF p])
qed

theorem getitem_zero_stop_witness:
  "getitem (Constant 5 (BV 8 False)) (SliceKey (Some 2) (Some 0) None)
     = Inr (Slice (Constant 5 (BV 8 False)) 2 8)
   \<and> getitem (Constant 5 (BV 8 False)) (SliceKey None (Some 0) None)
     = Inr (Slice (Constant 5 (BV 8 False)) 0 8)"
  using getitem_zero_stop [where e = "Constant 5 (BV 8 False)" and w = 8 and a = 2]
  by (simp add: sys_maxsize_def checked_len_def)

text \<open>
  Claim C4 as it is stated fails in three ways. The slice \<^verbatim>\<open>e[2:0]\<close> of an 8-bit
  constant: the stop \<open>0\<close> is not greater than the width, and yet the result is the
  slice from 2 to 8, not the slice from 2 to 0. The slice \<^verbatim>\<open>e[2:5]\<close> of a
  concatenation of two 4-bit constants raises \<^verbatim>\<open>TypeError\<close>. The subscript \<^verbatim>\<open>e[3]\<close> of
  an array proxy is an array proxy, not a slice.
\<close>

theorem getitem_counterexample:
  "getitem (Constant 5 (BV 8 False)) (SliceKey (Some 2) (Some 0) None)
     = Inr (Slice (Constant 5 (BV 8 False)) 2 8)
   \<and> getitem (Constant 5 (BV 8 False)) (SliceKey (Some 2) (Some 0) None)
     \<noteq> Inr (Slice (Constant 5 (BV 8 False)) 2 0)
   \<and> getitem (Cat [Constant 0 (BV 4 False), Constant 0 (BV 4 False)]) (SliceKey (Some 2) (Some 5) None)
     = Inl TypeError
   \<and> getitem (ArrayProxy [Constant 5 (BV 8 False), Constant 6 (BV 8 False)] (Constant 0 (BV 1 False)))
       (IntKey 3)
     = Inr (ArrayProxy [Slice (Constant 5 (BV 8 False)) 3 4, Slice (Constant 6 (BV 8 False)) 3 4]
             (Constant 0 (BV 1 False)))"
  by (simp add: checked_len_def sys_maxsize_def)

text \<open>
  Claim C4, amended. For every expression \<open>e\<close> that is not an array proxy, \<^verbatim>\<open>e[i]\<close> is
  the slice from \<open>i\<close> to \<open>i + 1\<close>. For a constant or a signal \<open>e\<close> whose declared
  width \<open>w\<close> is between 0 and \<^verbatim>\<open>sys.maxsize\<close>, \<^verbatim>\<open>e[a:b]\<close> with a stop \<open>b\<close> other than
  \<open>0\<close> is the slice from \<open>a\<close> to \<open>b\<close>, with \<open>b\<close> replaced by \<open>w\<close> when \<open>b > w\<close>, and a
  slice with a step other than 1 raises \<^verbatim>\<open>KeyError\<close>. On an operator, a slice, a
  concatenation or a replication every slice raises \<^verbatim>\<open>TypeError\<close>. On every expression
  that is not an array proxy a slice with a step other than 1 fails with an error.
  On an array proxy, \<^verbatim>\<open>e[key]\<close> succeeds when the subscript succeeds on every choice,
  and is then the array proxy of the results with the same key.
\<close>

theorem getitem_slice:
  "(\<not> is_ArrayProxy e \<longrightarrow> getitem e (IntKey i) = Inr (Slice e i (i + 1)))
   \<and> (Constant_or_Signal e w \<and> 0 \<le> w \<and> w \<le> sys_maxsize \<and> b \<noteq> 0 \<longrightarrow>
        getitem e (SliceKey (Some a) (Some b) None) = Inr (Slice e a (if b > w then w else b)))
   \<and> (Constant_or_Signal e w \<and> 0 \<le> w \<and> w \<le> sys_maxsize \<and> s \<noteq> 1 \<longrightarrow>
        getitem e (SliceKey x y (Some s)) = Inl KeyError)
   \<and> (without_len e \<longrightarrow> getitem e (SliceKey x y z) = Inl TypeError)
   \<and> (\<not> is_ArrayProxy e \<and> s \<noteq> 1 \<longrightarrow> isl (getitem e (SliceKey x y (Some s))))
   \<and> (getitem (ArrayProxy cs k) key = Inr r \<longleftrightarrow>
        (\<exists>rs. r = ArrayProxy rs k \<and> list_all2 (\<lambda>c r'. getitem c key = Inr r') cs rs))"
proof -
  have A: "getitem e (IntKey i) = Inr (Slice e i (i + 1))" if "\<not> is_ArrayProxy e"
    using that by (rule getitem_IntKey)
  have B: "getitem e (SliceKey (Some a) (Some b) None) = Inr (Slice e a (if b > w then w else b))"
    if "Constant_or_Signal e w" "0 \<le> w" "w \<le> sys_maxsize" "b \<noteq> 0"
  proof -
    from that have l: "len e = Inr w" by (simp add: len_Constant_or_Signal)
    from that(1) have p: "\<not> is_ArrayProxy e" by (cases e) auto
    from l that(4) show ?thesis by (simp add: getitem_SliceKey [OF p])
  qed
  have C: "getitem e (SliceKey x y (Some s)) = Inl KeyError"
    if "Constant_or_Signal e w" "0 \<le> w" "w \<le> sys_maxsize"
  proof -
    from that have l: "len e = Inr w" by (simp add: len_Constant_or_Signal)
    from that(1) have p: "\<not> is_ArrayProxy e" by (cases e) auto
    from l show ?thesis by (simp add: getitem_SliceKey [OF p])
  qed
  have D: "getitem e (SliceKey x y z) = Inl TypeError" if "without_len e"
  proof -
    from that have p: "\<not> is_ArrayProxy e" by (cases e) auto
    from len_without [OF that] show ?thesis by (simp add: getitem_SliceKey [OF p])
  qed
  have E: "isl (getitem e (SliceKey x y (Some s)))" if "\<not> is_ArrayProxy e"
    by (simp add: getitem_SliceKey [OF that] split: sum.splits)
  have F: "getitem (ArrayProxy cs k) key = Inr r \<longleftrightarrow>
        (\<exists>rs. r = ArrayProxy rs k \<and> list_all2 (\<lambda>c r'. getitem c key = Inr r') cs rs)"
  proof -
    have "getitem (ArrayProxy cs k) key = Inr r \<longleftrightarrow>
            (\<exists>rs. r = ArrayProxy rs k \<and> getitem_choices cs key = Inr rs)"
      by (auto split: sum.splits)
    then show ?thesis by (simp only: getitem_choices_all)
  qed
  from A B C D E F show ?thesis by blast
qed

theorem getitem_slice_witness:
  "getitem (Constant 5 (BV 8 False)) (IntKey 3) = Inr (Slice (Constant 5 (BV 8 False)) 3 4)
   \<and> getitem (Constant 5 (BV 8 False)) (SliceKey (Some 2) (Some 20) None)
       = Inr (Slice (Constant 5 (BV 8 False)) 2 8)
   \<and> getitem (Constant 5 (BV 8 False)) (SliceKey (Some 0) (Some 8) (Some 2)) = Inl KeyError
   \<and> getitem (Cat [Constant 5 (BV 8 False)]) (SliceKey (Some 0) (Some 8) None) = Inl TypeError
   \<and> isl (getitem (Cat [Constant 5 (BV 8 False)]) (SliceKey (Some 0) (Some 8) (Some 2)))
   \<and> getitem (ArrayProxy [Constant 5 (BV 8 False)] (Constant 0 (BV 1 False))) (IntKey 3)
       = Inr (ArrayProxy [Slice (Constant 5 (BV 8 False)) 3 4] (Constant 0 (BV 1 False)))"
  using getitem_slice [where e = "Constant 5 (BV 8 False)" and w = 8 and i = 3 and a = 2
      and b = 20 and s = 2 and x = "Some 0" and y = "Some 8" and z = None
      and cs = "[Constant 5 (BV 8 False)]" and k = "Constant 0 (BV 1 False)" and key = "IntKey 3"
      and r = "ArrayProxy [Slice (Constant 5 (BV 8 False)) 3 4] (Constant 0 (BV 1 False))"]
    getitem_slice [where e = "Cat [Constant 5 (BV 8 False)]" and s = 2 and x = "Some 0"
      and y = "Some 8" and z = None]
  by (simp add: sys_maxsize_def checked_len_def)

subsection \<open>Case\<close>

lemma match_arms_only:
  "\<forall>c \<in> set cs. match_arm c \<Longrightarrow> match_arms cs = Inr (map (\<lambda>c. (hd c, tl c)) cs)"
proof (induction cs)
  case Nil
  then show ?case by simp
next
  case (Cons c cs)
  then obtain x xs where "c = x # xs" "\<not> is_Default x"
    by (cases c) auto
  with Cons show ?case by simp
qed

lemma match_arms_one_default:
  assumes "\<forall>c \<in> set (pre @ post). match_arm c"
  shows "match_arms (pre @ (Default # body) # post) = Inr (map (\<lambda>c. (hd c, tl c)) (pre @ post))"
  using assms
proof (induction pre)
  case Nil
  then show ?case by (simp add: match_arms_only)
next
  case (Cons c pre)
  then obtain x xs where "c = x # xs" "\<not> is_Default x"
    by (cases c) auto
  with Cons show ?case by simp
qed

lemma find_default_only:
  "\<forall>c \<in> set cs. match_arm c \<Longrightarrow> find_default d cs = Inr d"
proof (induction cs)
  case Nil
  then show ?case by simp
next
  case (Cons c cs)
  then obtain x xs where "c = x # xs" "\<not> is_Default x"
    by (cases c) auto
  with Cons show ?case by simp
qed

lemma find_default_one:
  assumes "\<forall>c \<in> set (pre @ post). match_arm c"
  shows "find_default None (pre @ (Default # body) # post) = Inr (Some body)"
  using assms
proof (induction pre)
  case Nil
  then show ?case by (simp add: find_default_only)
next
  case (Cons c pre)
  then obtain x xs where "c = x # xs" "\<not> is_Default x"
    by (cases c) auto
  with Cons show ?case by simp
qed

lemma find_default_seen:
  "isl (find_default (Some d) (bs @ (Default # d2) # cs))"
proof (induction bs arbitrary: d)
  case Nil
  show ?case by simp
next
  case (Cons c bs)
  show ?case
  proof (cases c)
    case Nil
    then show ?thesis by simp
  next
    case (Cons x xs)
    then show ?thesis using Cons.IH by simp
  qed
qed

lemma find_default_two:
  "isl (find_default d (as @ (Default # d1) # bs @ (Default # d2) # cs))"
proof (induction as arbitrary: d)
  case Nil
  show ?case using find_default_seen by simp
next
  case (Cons c as)
  show ?case
  proof (cases c)
    case Nil
    then show ?thesis by simp
  next
    case (Cons x xs)
    then show ?thesis using Cons.IH by simp
  qed
qed

text \<open>
  Claim C5. A \<^verbatim>\<open>Case\<close> built from arms of which two start with a \<^verbatim>\<open>Default\<close> fails
  with an error. A \<^verbatim>\<open>Case\<close> built from one arm that starts with a \<^verbatim>\<open>Default\<close> and
  match arms before and after it, wherever the default arm stands among them,
  has one pair for each match arm, in the order of the arms, and the rest of the
  default arm as its default.
\<close>

theorem Case_init_default:
  "isl (Case_init test (as @ (Default # d1) # bs @ (Default # d2) # cs))
   \<and> ((\<forall>c \<in> set (pre @ post). match_arm c) \<longrightarrow>
        Case_init test (pre @ (Default # body) # post)
          = Inr (Case_stmt test (map (\<lambda>c. (hd c, tl c)) (pre @ post)) body))"
proof -
  have "isl (Case_init test (as @ (Default # d1) # bs @ (Default # d2) # cs))"
    using find_default_two [of None as d1 bs d2 cs]
    by (auto simp: Case_init_def split: sum.splits option.splits)
  moreover have "Case_init test (pre @ (Default # body) # post)
          = Inr (Case_stmt test (map (\<lambda>c. (hd c, tl c)) (pre @ post)) body)"
    if "\<forall>c \<in> set (pre @ post). match_arm c"
    using that by (simp add: Case_init_def match_arms_one_default find_default_one)
  ultimately show ?thesis by blast
qed

theorem Case_init_default_witness:
  "Case_init (Constant 0 (BV 1 False))
       [ [Obj_Value (Constant 1 (BV 1 False)), Obj_stmt (Assign (Constant 0 (BV 1 False)) (Constant 0 (BV 1 False)))],
        [Default, Obj_stmt (Assign (Constant 0 (BV 1 False)) (Constant 1 (BV 1 False)))],
        [Obj_Value (Constant 0 (BV 1 False))] ]
     = Inr (Case_stmt (Constant 0 (BV 1 False))
         [(Obj_Value (Constant 1 (BV 1 False)), [Obj_stmt (Assign (Constant 0 (BV 1 False)) (Constant 0 (BV 1 False)))]),
          (Obj_Value (Constant 0 (BV 1 False)), [])]
         [Obj_stmt (Assign (Constant 0 (BV 1 False)) (Constant 1 (BV 1 False)))])
   \<and> isl (Case_init (Constant 0 (BV 1 False)) [ [Default], [Default] ])"
  using Case_init_default [where test = "Constant 0 (BV 1 False)"
     and as = "[]" and ?d1.0 = "[]" and bs = "[]" and ?d2.0 = "[]" and cs = "[]"
     and pre = "[ [Obj_Value (Constant 1 (BV 1 False)), Obj_stmt (Assign (Constant 0 (BV 1 False)) (Constant 0 (BV 1 False)))] ]"
     and post = "[ [Obj_Value (Constant 0 (BV 1 False))] ]"
     and body = "[Obj_stmt (Assign (Constant 0 (BV 1 False)) (Constant 1 (BV 1 False)))]"]
  by simp

subsection \<open>Conditional chains\<close>

lemma chain_links: "chain (links (If_stmt c t f)) (terminal_slot (If_stmt c t f)) = [If_stmt c t f]"
  by (induction "If_stmt c t f" arbitrary: c t f rule: links.induct) auto

lemma insert_else_empty:
  "terminal_slot (If_stmt c t f) = [] \<Longrightarrow>
   \<exists>o'. insert_else (If_stmt c t f) clause = Inr o' \<and> [o'] = chain (links (If_stmt c t f)) clause"
  by (induction "If_stmt c t f" clause arbitrary: c t f rule: insert_else.induct) auto

lemma insert_else_filled:
  "terminal_slot (If_stmt c t f) \<noteq> [] \<Longrightarrow> insert_else (If_stmt c t f) clause = Inl AssertionError"
  by (induction "If_stmt c t f" clause arbitrary: c t f rule: insert_else.induct) auto

text \<open>
  \<^verbatim>\<open>Else\<close> with a body that is exactly one new \<^verbatim>\<open>If\<close> does what \<^verbatim>\<open>Elif\<close> does: the
  \<^verbatim>\<open>If\<close> becomes a link of the chain, and a later clause is attached to it.
\<close>

lemma Else_single_If:
  "Else self [If_init cond t] = Elif self cond t"
  by (simp add: Else_def Elif_def)

lemma Else_single_If_example:
  "Else (If_stmt c t []) [If_stmt c' t' [] ] = Inr (If_stmt c t [If_stmt c' t' [] ])
   \<and> Else (If_stmt c t [If_stmt c' t' [] ]) body = Inr (If_stmt c t [If_stmt c' t' body])"
  by (simp add: Else_def)

text \<open>
  Claim C6. \<^verbatim>\<open>If(cond, body)\<close> makes a node with an empty false branch. \<^verbatim>\<open>Else\<close> and
  \<^verbatim>\<open>Elif\<close> hand their clause (for \<^verbatim>\<open>Elif\<close>, one new \<^verbatim>\<open>If\<close>) to \<^verbatim>\<open>_insert_else\<close>.
  Every \<^verbatim>\<open>If\<close> node is the chain of its links closed by its terminal false branch.
  When that terminal false branch is empty, \<^verbatim>\<open>_insert_else\<close> returns the same chain
  of links closed by the clause: it has attached the clause at the end of the chain
  and changed nothing else. When the terminal false branch is already filled,
  \<^verbatim>\<open>_insert_else\<close> fails with an \<^verbatim>\<open>AssertionError\<close> and returns no changed chain.
\<close>

theorem conditional_chain:
  "If_init c t = If_stmt c t []
   \<and> Else (If_stmt c t f) body = insert_else (If_stmt c t f) body
   \<and> Elif (If_stmt c t f) c2 t2 = insert_else (If_stmt c t f) [If_stmt c2 t2 [] ]
   \<and> chain (links (If_stmt c t f)) (terminal_slot (If_stmt c t f)) = [If_stmt c t f]
   \<and> (terminal_slot (If_stmt c t f) = [] \<longrightarrow>
        (\<exists>o'. insert_else (If_stmt c t f) clause = Inr o'
               \<and> [o'] = chain (links (If_stmt c t f)) clause))
   \<and> (terminal_slot (If_stmt c t f) \<noteq> [] \<longrightarrow>
        insert_else (If_stmt c t f) clause = Inl AssertionError)"
  using chain_links insert_else_empty insert_else_filled
  by (simp add: If_init_def Else_def Elif_def)

theorem conditional_chain_witness:
  "insert_else (If_stmt (Constant 1 (BV 1 False)) [] [])
       [Assign (Constant 0 (BV 1 False)) (Constant 0 (BV 1 False))]
     = Inr (If_stmt (Constant 1 (BV 1 False)) []
              [Assign (Constant 0 (BV 1 False)) (Constant 0 (BV 1 False))])
   \<and> insert_else (If_stmt (Constant 1 (BV 1 False)) []
                    [Assign (Constant 0 (BV 1 False)) (Constant 0 (BV 1 False))])
       [Assign (Constant 0 (BV 1 False)) (Constant 1 (BV 1 False))]
     = Inl AssertionError"
  using conditional_chain [where c = "Constant 1 (BV 1 False)" and t = "[]" and f = "[]"
      and clause = "[Assign (Constant 0 (BV 1 False)) (Constant 0 (BV 1 False))]"]
    conditional_chain [where c = "Constant 1 (BV 1 False)" and t = "[]"
      and f = "[Assign (Constant 0 (BV 1 False)) (Constant 0 (BV 1 False))]"
      and clause = "[Assign (Constant 0 (BV 1 False)) (Constant 1 (BV 1 False))]"]
  by simp

subsection \<open>Clock domains\<close>

text \<open>
  Claim C7. \<^verbatim>\<open>get_clock_domains\<close> returns the union of the keys of \<^verbatim>\<open>sync\<close>, of the
  domains of the clock and reset items of the instances, and of the clock domains of
  the ports of the memories. With \<^verbatim>\<open>sync = {"sys": ...}\<close>, one instance whose only
  item is a reset port on \<^verbatim>\<open>"pix"\<close> and no memory, the result is \<^verbatim>\<open>{"sys", "pix"}\<close>.
\<close>

theorem get_clock_domains_union:
  "get_clock_domains f =
     fst ` set (sync f)
     \<union> {d. \<exists>inst \<in> set (instances f). \<exists>x \<in> set (items inst). is_CR x \<and> domain x = d}
     \<union> {d. \<exists>mem \<in> set (memories f). \<exists>port \<in> set (ports mem). clock_domain port = d}
   \<and> get_clock_domains
        \<lparr>comb = [], sync = [(''sys'', ss)], sync_defaultdict = False,
         instances = [\<lparr>inst_of = ''pll'', inst_name_override = ''pll'',
                       items = [ResetPort ''rst'' ''pix'']\<rparr>],
         memories = [], sim = []\<rparr> = {''sys'', ''pix''}"
  by (auto simp: get_clock_domains_def Let_def)

text \<open>
  Claim C1. \<^verbatim>\<open>rename_clock_domain("sys", "pix")\<close> on a fragment whose \<^verbatim>\<open>sync\<close> is a
  plain dict with the key \<^verbatim>\<open>"sys"\<close> raises \<^verbatim>\<open>KeyError\<close>, since the key that is read
  is the literal \<^verbatim>\<open>"old"\<close>; when \<^verbatim>\<open>sync\<close> has a key \<^verbatim>\<open>"old"\<close>, it is this entry that
  moves, to the key \<^verbatim>\<open>"new"\<close>, while the entry of \<^verbatim>\<open>"sys"\<close> stays and the clock port of
  the instance goes from \<^verbatim>\<open>"sys"\<close> to \<^verbatim>\<open>"pix"\<close>; and when \<^verbatim>\<open>sync\<close> is a
  \<^verbatim>\<open>defaultdict(list)\<close> with the key \<^verbatim>\<open>"sys"\<close>, nothing is raised, the entry of \<^verbatim>\<open>"sys"\<close>
  stays, the key \<^verbatim>\<open>"new"\<close> is bound to an empty list and the clock port is renamed.
\<close>

theorem rename_clock_domain_literal_keys:
  "rename_clock_domain
     \<lparr>comb = [], sync = [(''sys'', [s])], sync_defaultdict = False,
      instances = [\<lparr>inst_of = ''pll'', inst_name_override = ''pll'',
                    items = [ClockPort ''clk'' ''sys'']\<rparr>],
      memories = [], sim = []\<rparr> ''sys'' ''pix'' = Inl KeyError
   \<and> rename_clock_domain
     \<lparr>comb = [], sync = [(''old'', [s1]), (''sys'', [s2])], sync_defaultdict = False,
      instances = [\<lparr>inst_of = ''pll'', inst_name_override = ''pll'',
                    items = [ClockPort ''clk'' ''sys'']\<rparr>],
      memories = [], sim = []\<rparr> ''sys'' ''pix''
     = Inr \<lparr>comb = [], sync = [(''sys'', [s2]), (''new'', [s1])], sync_defaultdict = False,
      instances = [\<lparr>inst_of = ''pll'', inst_name_override = ''pll'',
                    items = [ClockPort ''clk'' ''pix'']\<rparr>],
      memories = [], sim = []\<rparr>
   \<and> rename_clock_domain
     \<lparr>comb = [], sync = [(''sys'', [s])], sync_defaultdict = True,
      instances = [\<lparr>inst_of = ''pll'', inst_name_override = ''pll'',
                    items = [ClockPort ''clk'' ''sys'']\<rparr>],
      memories = [], sim = []\<rparr> ''sys'' ''pix''
     = Inr \<lparr>comb = [], sync = [(''sys'', [s]), (''new'', [])], sync_defaultdict = True,
      instances = [\<lparr>inst_of = ''pll'', inst_name_override = ''pll'',
                    items = [ClockPort ''clk'' ''pix'']\<rparr>],
      memories = [], sim = []\<rparr>"
  by (simp add: rename_clock_domain_def sync_getitem_def rename_instance_def)

subsection \<open>Signals\<close>








subsection \<open>Bit widths\<close>

lemma double_of_int_tie: "double_of_int (2 ^ 53 + 1) = 2 ^ 53"
  by code_simp

lemma double_of_int_pow: "double_of_int (2 ^ 53) = 2 ^ 53"
  by code_simp

lemma double_of_int_exact: "m < 2 ^ 53 \<Longrightarrow> double_of_int m = m"
proof -
  assume "m < 2 ^ 53"
  then have "bitlen m \<le> 53" by (simp add: bitlen_le_iff_power)
  then show ?thesis by (simp add: double_of_int_def)
qed

lemma bits_for_zero: "bits_for L (Raw 0) = Inr 1"
  by simp

lemma bits_for_negative: "n < 0 \<Longrightarrow> bits_for_int L n = bits_for_int L (- n) + 1"
  by simp

lemma bits_for_Constant:
  "0 \<le> width b \<Longrightarrow> width b \<le> sys_maxsize \<Longrightarrow> bits_for L (Val (Constant n b)) = Inr (width b)"
  by (simp add: checked_len_def)

text \<open>
  With a library whose logarithm is exact (\<open>\<lceil>log\<^sub>2 m\<rceil>\<close> is \<open>bitlen (m - 1)\<close>), and as
  long as \<open>n + 1\<close> is below \<open>2\<^sup>5\<^sup>3\<close>, \<^verbatim>\<open>bits_for\<close> returns for \<open>n > 0\<close> the number of
  bits of \<open>n\<close>: the least \<open>w\<close> with \<open>n < 2\<^sup>w\<close>.
\<close>

lemma bits_for_exact_library:
  assumes "0 < n" and "n + 1 < 2 ^ 53"
  shows "bits_for_int (\<lambda>m. bitlen (m - 1)) n = bitlen n"
    and "n < 2 ^ nat (bitlen n)" and "2 ^ nat (bitlen n - 1) \<le> n"
proof -
  from assms(2) have "double_of_int (n + 1) = n + 1" by (rule double_of_int_exact)
  with assms(1) show "bits_for_int (\<lambda>m. bitlen (m - 1)) n = bitlen n" by simp
  from assms(1) bitlen_bounds [of n] show "n < 2 ^ nat (bitlen n)" "2 ^ nat (bitlen n - 1) \<le> n"
    by auto
qed

text \<open>
  Claim C3. The integers \<open>2\<^sup>5\<^sup>3 - 1\<close> and \<open>2\<^sup>5\<^sup>3\<close> need 53 and 54 bits. \<^verbatim>\<open>bits_for\<close>
  returns the same width for both, whatever the logarithm of the C library returns:
  \<open>2\<^sup>5\<^sup>3 + 1\<close> is not a double and is rounded to \<open>2\<^sup>5\<^sup>3\<close> before the logarithm is
  taken.
\<close>

theorem bits_for_collision:
  "bits_for_int L (2 ^ 53) = bits_for_int L (2 ^ 53 - 1)"
proof -
  have "bits_for_int L (2 ^ 53) = L (double_of_int (2 ^ 53 + 1))" by simp
  also have "\<dots> = L (double_of_int (2 ^ 53))"
    by (simp only: double_of_int_tie double_of_int_pow)
  also have "\<dots> = bits_for_int L (2 ^ 53 - 1)" by simp
  finally show ?thesis .
qed

subsection \<open>Merging fragments\<close>

lemma snd_set_update:
  "snd ` set (AList.update k r al) \<subseteq> insert r (snd ` set al)"
  by (induction al) auto

lemma distinct_snd_update:
  "distinct (map snd al) \<Longrightarrow> r \<notin> snd ` set al \<Longrightarrow> distinct (map snd (AList.update k r al))"
proof (induction al)
  case Nil
  then show ?case by simp
next
  case (Cons p al)
  obtain k' r' where p: "p = (k', r')" by (cases p)
  show ?case
  proof (cases "k' = k")
    case True
    with Cons p show ?thesis by auto
  next
    case False
    have "r' \<notin> snd ` set (AList.update k r al)"
      using snd_set_update [of k r al] Cons.prems p by auto
    with False Cons p show ?thesis by auto
  qed
qed

lemma owns_bind_new:
  assumes "owns st d"
  shows "owns (dict_setitem (fst (new_list st xs)) d k (snd (new_list st xs))) d"
proof -
  let ?al = "dict_at st d"
  from assms have a: "d < next_ref st" "distinct (map fst ?al)" "distinct (map snd ?al)"
    "\<forall>r \<in> snd ` set ?al. d < r \<and> r < next_ref st"
    by (auto simp: owns_def)
  from a(4) have notin: "next_ref st \<notin> snd ` set ?al" by auto
  have 1: "distinct (map fst (AList.update k (next_ref st) ?al))"
    using a(2) by (rule distinct_update)
  have 2: "distinct (map snd (AList.update k (next_ref st) ?al))"
    using a(3) notin by (rule distinct_snd_update)
  have 3: "\<forall>r \<in> snd ` set (AList.update k (next_ref st) ?al). d < r \<and> r < Suc (next_ref st)"
    using snd_set_update [of k "next_ref st" ?al] a(1) a(4) by fastforce
  from a(1) 1 2 3 show ?thesis
    by (simp add: owns_def dict_setitem_def new_list_def)
qed

lemma map_of_owned_inj:
  assumes "distinct (map fst al)" "distinct (map snd al)"
    and "map_of al k = Some r" "map_of al k' = Some r"
  shows "k = k'"
proof -
  from assms(3,4) have "(k, r) \<in> set al" "(k', r) \<in> set al"
    by (auto dest: map_of_SomeD)
  with assms(2) show ?thesis
    by (metis distinct_map inj_on_def snd_conv fst_conv)
qed

lemma copy_items_spec:
  assumes "owns st d" and "\<forall>v \<in> snd ` set kvs. v < d" and "distinct (map fst kvs)"
  shows "owns (copy_items st d kvs) d
       \<and> next_ref st \<le> next_ref (copy_items st d kvs)
       \<and> (\<forall>r < next_ref st. list_at (copy_items st d kvs) r = list_at st r)
       \<and> (\<forall>r. r \<noteq> d \<longrightarrow> dict_at (copy_items st d kvs) r = dict_at st r)
       \<and> (\<forall>k. dict_lookup (copy_items st d kvs) d k =
                (case map_of kvs k of None \<Rightarrow> dict_lookup st d k | Some v \<Rightarrow> Some (list_at st v)))"
  using assms
proof (induction kvs arbitrary: st)
  case Nil
  then show ?case by simp
next
  case (Cons p kvs)
  obtain k v where p: "p = (k, v)" by (cases p)
  let ?r = "next_ref st"
  let ?st1 = "dict_setitem (fst (new_list st (list_at st v))) d k (snd (new_list st (list_at st v)))"
  have step: "copy_items st d (p # kvs) = copy_items ?st1 d kvs"
    by (simp add: p new_list_def)
  have o1: "owns ?st1 d" using Cons.prems(1) by (rule owns_bind_new)
  from Cons.prems(1) have dlt: "d < ?r" and old: "\<forall>r \<in> snd ` set (dict_at st d). r < ?r"
    by (auto simp: owns_def)
  from Cons.prems(2) p have vd: "v < d" and vs: "\<forall>v \<in> snd ` set kvs. v < d" by auto
  from Cons.prems(3) p have kn: "k \<notin> fst ` set kvs" and dk: "distinct (map fst kvs)" by auto
  have n1: "next_ref ?st1 = Suc ?r" by (simp add: dict_setitem_def new_list_def)
  have l1: "list_at ?st1 = (list_at st)(?r := list_at st v)" by (simp add: dict_setitem_def new_list_def)
  have d1: "dict_at ?st1 = (dict_at st)(d := AList.update k ?r (dict_at st d))"
    by (simp add: dict_setitem_def new_list_def)
  note IH = Cons.IH [OF o1 vs dk]
  have look1: "dict_lookup ?st1 d k' = (if k' = k then Some (list_at st v) else dict_lookup st d k')" for k'
  proof (cases "k' = k")
    case True
    then show ?thesis by (simp add: dict_lookup_def l1 d1 update_conv')
  next
    case False
    show ?thesis
    proof (cases "map_of (dict_at st d) k'")
      case None
      with False show ?thesis by (simp add: dict_lookup_def l1 d1 update_conv')
    next
      case (Some r)
      then have "r \<in> snd ` set (dict_at st d)" by (force dest: map_of_SomeD)
      with old have "r \<noteq> ?r" by auto
      with False Some show ?thesis by (simp add: dict_lookup_def l1 d1 update_conv')
    qed
  qed
  have lv: "list_at ?st1 v' = list_at st v'" if "v' < d" for v'
    using that dlt by (simp add: l1)
  have A: "owns (copy_items st d (p # kvs)) d" using IH step by simp
  have B: "next_ref st \<le> next_ref (copy_items st d (p # kvs))" using IH step n1 by simp
  have C: "\<forall>r < next_ref st. list_at (copy_items st d (p # kvs)) r = list_at st r"
    using IH step n1 l1 by simp
  have D: "\<forall>r. r \<noteq> d \<longrightarrow> dict_at (copy_items st d (p # kvs)) r = dict_at st r"
    using IH step d1 by simp
  have E: "dict_lookup (copy_items st d (p # kvs)) d k' =
            (case map_of (p # kvs) k' of None \<Rightarrow> dict_lookup st d k' | Some v \<Rightarrow> Some (list_at st v))" for k'
  proof (cases "k' = k")
    case True
    from kn have "map_of kvs k = None" by (simp add: map_of_eq_None_iff)
    with True IH step look1 p show ?thesis by simp
  next
    case False
    show ?thesis
    proof (cases "map_of kvs k'")
      case None
      with False IH step look1 p show ?thesis by simp
    next
      case (Some v')
      then have "v' \<in> snd ` set kvs" by (force dest: map_of_SomeD)
      with vs have "v' < d" by auto
      with False IH step Some p lv show ?thesis by simp
    qed
  qed
  from A B C D E show ?case by blast
qed

lemma extend_step:
  fixes k :: string
  assumes "owns st d" and "v < d"
  defines "st2 \<equiv> list_extend (fst (defaultdict_getitem st d k)) (snd (defaultdict_getitem st d k)) v"
  shows "owns st2 d
       \<and> next_ref st \<le> next_ref st2
       \<and> (\<forall>r \<le> d. list_at st2 r = list_at st r)
       \<and> (\<forall>r. r \<noteq> d \<longrightarrow> dict_at st2 r = dict_at st r)
       \<and> (\<forall>k'. dict_lookup st2 d k' =
                (if k' = k
                 then Some ((case dict_lookup st d k of None \<Rightarrow> [] | Some l \<Rightarrow> l) @ list_at st v)
                 else dict_lookup st d k'))"
proof (cases "map_of (dict_at st d) k")
  case None
  let ?r = "next_ref st"
  let ?st1 = "dict_setitem (fst (new_list st [])) d k (snd (new_list st []))"
  from assms(1) have dlt: "d < ?r" and old: "\<forall>r \<in> snd ` set (dict_at st d). r < ?r"
    by (auto simp: owns_def)
  have o1: "owns ?st1 d" using assms(1) by (rule owns_bind_new)
  have g: "defaultdict_getitem st d k = (?st1, ?r)"
    using None by (simp add: defaultdict_getitem_def new_list_def)
  have n2: "next_ref st2 = Suc ?r"
    by (simp add: st2_def g list_extend_def dict_setitem_def new_list_def)
  have d2: "dict_at st2 = (dict_at st)(d := AList.update k ?r (dict_at st d))"
    by (simp add: st2_def g list_extend_def dict_setitem_def new_list_def)
  have l2: "list_at st2 = (list_at st)(?r := list_at st v)"
    using assms(2) dlt by (simp add: st2_def g list_extend_def dict_setitem_def new_list_def)
  have A: "owns st2 d" using o1 by (simp add: owns_def n2 d2 dict_setitem_def new_list_def)
  have E: "dict_lookup st2 d k' =
                (if k' = k
                 then Some ((case dict_lookup st d k of None \<Rightarrow> [] | Some l \<Rightarrow> l) @ list_at st v)
                 else dict_lookup st d k')" for k'
  proof (cases "k' = k")
    case True
    with None show ?thesis by (simp add: dict_lookup_def l2 d2 update_conv')
  next
    case False
    show ?thesis
    proof (cases "map_of (dict_at st d) k'")
      case None
      with False show ?thesis by (simp add: dict_lookup_def l2 d2 update_conv')
    next
      case (Some r)
      then have "r \<in> snd ` set (dict_at st d)" by (force dest: map_of_SomeD)
      with old have "r \<noteq> ?r" by auto
      with False Some show ?thesis by (simp add: dict_lookup_def l2 d2 update_conv')
    qed
  qed
  from A E dlt show ?thesis by (simp add: n2 d2 l2)
next
  case (Some l)
  note kl = Some
  from assms(1) have dlt: "d < next_ref st"
    and own: "\<forall>r \<in> snd ` set (dict_at st d). d < r \<and> r < next_ref st"
    and dist: "distinct (map fst (dict_at st d))" "distinct (map snd (dict_at st d))"
    by (auto simp: owns_def)
  from Some have "l \<in> snd ` set (dict_at st d)" by (force dest: map_of_SomeD)
  with own have dl: "d < l" by auto
  have g: "defaultdict_getitem st d k = (st, l)"
    using Some by (simp add: defaultdict_getitem_def)
  have n2: "next_ref st2 = next_ref st" by (simp add: st2_def g list_extend_def)
  have d2: "dict_at st2 = dict_at st" by (simp add: st2_def g list_extend_def)
  have l2: "list_at st2 = (list_at st)(l := list_at st l @ list_at st v)"
    by (simp add: st2_def g list_extend_def)
  have A: "owns st2 d" using assms(1) by (simp add: owns_def n2 d2)
  have E: "dict_lookup st2 d k' =
                (if k' = k
                 then Some ((case dict_lookup st d k of None \<Rightarrow> [] | Some l \<Rightarrow> l) @ list_at st v)
                 else dict_lookup st d k')" for k'
  proof (cases "k' = k")
    case True
    with Some show ?thesis by (simp add: dict_lookup_def l2 d2)
  next
    case False
    show ?thesis
    proof (cases "map_of (dict_at st d) k'")
      case None
      then show ?thesis using False by (simp add: dict_lookup_def l2 d2)
    next
      case (Some r)
      have "r \<noteq> l" using map_of_owned_inj [OF dist Some] kl False
        by auto
      with False Some show ?thesis by (simp add: dict_lookup_def l2 d2)
    qed
  qed
  from A E dl show ?thesis by (simp add: n2 d2 l2)
qed

lemma extend_items_spec:
  assumes "owns st d" and "\<forall>v \<in> snd ` set kvs. v < d" and "distinct (map fst kvs)"
  shows "owns (extend_items st d kvs) d
       \<and> next_ref st \<le> next_ref (extend_items st d kvs)
       \<and> (\<forall>r \<le> d. list_at (extend_items st d kvs) r = list_at st r)
       \<and> (\<forall>r. r \<noteq> d \<longrightarrow> dict_at (extend_items st d kvs) r = dict_at st r)
       \<and> (\<forall>k. dict_lookup (extend_items st d kvs) d k =
                (case map_of kvs k of
                   None \<Rightarrow> dict_lookup st d k
                 | Some v \<Rightarrow> Some ((case dict_lookup st d k of None \<Rightarrow> [] | Some l \<Rightarrow> l) @ list_at st v)))"
  using assms
proof (induction kvs arbitrary: st)
  case Nil
  then show ?case by simp
next
  case (Cons p kvs)
  obtain k v where p: "p = (k, v)" by (cases p)
  let ?st2 = "list_extend (fst (defaultdict_getitem st d k)) (snd (defaultdict_getitem st d k)) v"
  have step: "extend_items st d (p # kvs) = extend_items ?st2 d kvs"
    by (simp add: p split: prod.splits)
  from Cons.prems(2) p have vd: "v < d" and vs: "\<forall>v \<in> snd ` set kvs. v < d" by auto
  from Cons.prems(3) p have kn: "k \<notin> fst ` set kvs" and dk: "distinct (map fst kvs)" by auto
  note S = extend_step [OF Cons.prems(1) vd, where k = k]
  from S have o2: "owns ?st2 d" by blast
  note IH = Cons.IH [OF o2 vs dk]
  have A: "owns (extend_items st d (p # kvs)) d" using IH step by simp
  have B: "next_ref st \<le> next_ref (extend_items st d (p # kvs))" using IH S step by simp
  have C: "\<forall>r \<le> d. list_at (extend_items st d (p # kvs)) r = list_at st r"
    using IH S step by simp
  have D: "\<forall>r. r \<noteq> d \<longrightarrow> dict_at (extend_items st d (p # kvs)) r = dict_at st r"
    using IH S step by simp
  have E: "dict_lookup (extend_items st d (p # kvs)) d k' =
            (case map_of (p # kvs) k' of
               None \<Rightarrow> dict_lookup st d k'
             | Some v \<Rightarrow> Some ((case dict_lookup st d k' of None \<Rightarrow> [] | Some l \<Rightarrow> l) @ list_at st v))" for k'
  proof (cases "k' = k")
    case True
    from kn have "map_of kvs k = None" by (simp add: map_of_eq_None_iff)
    with True IH S step p show ?thesis by simp
  next
    case False
    show ?thesis
    proof (cases "map_of kvs k'")
      case None
      with False IH S step p show ?thesis by simp
    next
      case (Some v')
      then have "v' \<in> snd ` set kvs" by (force dest: map_of_SomeD)
      with vs have "v' \<le> d" by auto
      with S have "list_at ?st2 v' = list_at st v'" by blast
      with False IH S step Some p show ?thesis by simp
    qed
  qed
  from A B C D E show ?case by blast
qed

lemma dict_lookup_None: "dict_lookup st d k = None \<longleftrightarrow> k \<notin> fst ` set (dict_at st d)"
  by (simp add: dict_lookup_def map_of_eq_None_iff)

lemma Fragment_add_result:
  assumes wf1: "well_formed st f1" and wf2: "well_formed st f2"
  defines "d \<equiv> next_ref st"
  defines "st1 \<equiv> st\<lparr>dict_at := (dict_at st)(d := []), next_ref := Suc d\<rparr>"
  defines "st2 \<equiv> copy_items st1 d (dict_at st (sync_ref f1))"
  defines "st3 \<equiv> extend_items st2 d (dict_at st (sync_ref f2))"
  defines "n \<equiv> next_ref st3"
  shows "Fragment_add st f1 f2 =
          (st3\<lparr>list_at := (list_at st3)
                  (n := list_at st (comb_ref f1) @ list_at st (comb_ref f2),
                   Suc n := list_at st (instances_ref f1) @ list_at st (instances_ref f2),
                   Suc (Suc n) := list_at st (memories_ref f1) @ list_at st (memories_ref f2),
                   Suc (Suc (Suc n)) := list_at st (sim_ref f1) @ list_at st (sim_ref f2)),
                next_ref := Suc (Suc (Suc (Suc n)))\<rparr>,
           \<lparr>comb_ref = n, sync_ref = d, instances_ref = Suc n, memories_ref = Suc (Suc n),
            sim_ref = Suc (Suc (Suc n))\<rparr>)"
    and "owns st3 d" and "d < n"
    and "\<forall>r < d. list_at st3 r = list_at st r \<and> dict_at st3 r = dict_at st r"
    and "\<forall>k. dict_lookup st3 d k =
           (if k \<in> sync_keys st f1 \<union> sync_keys st f2
            then Some (sync_list st f1 k @ sync_list st f2 k) else None)"
proof -
  from wf1 have a1: "comb_ref f1 < d" "sync_ref f1 < d" "instances_ref f1 < d"
      "memories_ref f1 < d" "sim_ref f1 < d"
    and v1: "\<forall>v \<in> snd ` set (dict_at st (sync_ref f1)). v < d"
    and k1: "distinct (map fst (dict_at st (sync_ref f1)))"
    by (auto simp: well_formed_def containers_def d_def)
  from wf2 have a2: "comb_ref f2 < d" "sync_ref f2 < d" "instances_ref f2 < d"
      "memories_ref f2 < d" "sim_ref f2 < d"
    and v2: "\<forall>v \<in> snd ` set (dict_at st (sync_ref f2)). v < d"
    and k2: "distinct (map fst (dict_at st (sync_ref f2)))"
    by (auto simp: well_formed_def containers_def d_def)
  have o1: "owns st1 d" by (simp add: owns_def st1_def)
  have l1: "list_at st1 = list_at st" by (simp add: st1_def)
  have n1: "next_ref st1 = Suc d" by (simp add: st1_def)
  have d1: "\<forall>r. r \<noteq> d \<longrightarrow> dict_at st1 r = dict_at st r" by (simp add: st1_def)
  have e1: "dict_lookup st1 d k = None" for k by (simp add: dict_lookup_def st1_def)
  note C = copy_items_spec [OF o1 v1 k1, folded st2_def]
  from C have o2: "owns st2 d" by blast
  from C n1 l1 have l2: "\<forall>r \<le> d. list_at st2 r = list_at st r" by simp
  from C d1 have d2: "\<forall>r. r \<noteq> d \<longrightarrow> dict_at st2 r = dict_at st r" by simp
  from C e1 l1 have e2: "dict_lookup st2 d k =
      (case map_of (dict_at st (sync_ref f1)) k of None \<Rightarrow> None | Some v \<Rightarrow> Some (list_at st v))" for k
    by (simp split: option.splits)
  note X = extend_items_spec [OF o2 v2 k2, folded st3_def]
  from X show o3: "owns st3 d" by blast
  then show dn: "d < n" by (simp add: owns_def n_def)
  from X l2 have l3: "\<forall>r \<le> d. list_at st3 r = list_at st r" by simp
  from X d2 have d3: "\<forall>r. r \<noteq> d \<longrightarrow> dict_at st3 r = dict_at st r" by simp
  from l3 d3 show "\<forall>r < d. list_at st3 r = list_at st r \<and> dict_at st3 r = dict_at st r" by simp
  show "\<forall>k. dict_lookup st3 d k =
           (if k \<in> sync_keys st f1 \<union> sync_keys st f2
            then Some (sync_list st f1 k @ sync_list st f2 k) else None)"
  proof
    fix k
    have s1: "sync_list st f1 k = (case map_of (dict_at st (sync_ref f1)) k of None \<Rightarrow> [] | Some v \<Rightarrow> list_at st v)"
      by (simp add: sync_list_def dict_lookup_def split: option.splits)
    have s2: "sync_list st f2 k = (case map_of (dict_at st (sync_ref f2)) k of None \<Rightarrow> [] | Some v \<Rightarrow> list_at st v)"
      by (simp add: sync_list_def dict_lookup_def split: option.splits)
    have m1: "map_of (dict_at st (sync_ref f1)) k = None \<longleftrightarrow> k \<notin> sync_keys st f1"
      by (simp add: sync_keys_def map_of_eq_None_iff)
    have m2: "map_of (dict_at st (sync_ref f2)) k = None \<longleftrightarrow> k \<notin> sync_keys st f2"
      by (simp add: sync_keys_def map_of_eq_None_iff)
    have l2v: "list_at st2 v = list_at st v" if "map_of (dict_at st (sync_ref f2)) k = Some v" for v
    proof -
      from that have "v \<in> snd ` set (dict_at st (sync_ref f2))" by (force dest: map_of_SomeD)
      with v2 l2 show ?thesis by auto
    qed
    from X have "dict_lookup st3 d k =
       (case map_of (dict_at st (sync_ref f2)) k of
          None \<Rightarrow> dict_lookup st2 d k
        | Some v \<Rightarrow> Some ((case dict_lookup st2 d k of None \<Rightarrow> [] | Some l \<Rightarrow> l) @ list_at st2 v))"
      by blast
    then show "dict_lookup st3 d k =
           (if k \<in> sync_keys st f1 \<union> sync_keys st f2
            then Some (sync_list st f1 k @ sync_list st f2 k) else None)"
      using m1 m2 l2v by (auto simp: e2 s1 s2 split: option.splits)
  qed
  have ds1: "dict_at st1 (sync_ref f1) = dict_at st (sync_ref f1)" using a1 d1 by simp
  have ds2: "dict_at st2 (sync_ref f2) = dict_at st (sync_ref f2)" using a2 d2 by simp
  have nd: "new_dict st [] = (st1, d)" by (simp add: new_dict_def st1_def d_def)
  have r3: "list_at st3 r = list_at st r" if "r < d" for r using that l3 by simp
  have neq: "r \<noteq> n" "r \<noteq> Suc n" "r \<noteq> Suc (Suc n)" if "r < d" for r using that dn by auto
  show "Fragment_add st f1 f2 =
          (st3\<lparr>list_at := (list_at st3)
                  (n := list_at st (comb_ref f1) @ list_at st (comb_ref f2),
                   Suc n := list_at st (instances_ref f1) @ list_at st (instances_ref f2),
                   Suc (Suc n) := list_at st (memories_ref f1) @ list_at st (memories_ref f2),
                   Suc (Suc (Suc n)) := list_at st (sim_ref f1) @ list_at st (sim_ref f2)),
                next_ref := Suc (Suc (Suc (Suc n)))\<rparr>,
           \<lparr>comb_ref = n, sync_ref = d, instances_ref = Suc n, memories_ref = Suc (Suc n),
            sim_ref = Suc (Suc (Suc n))\<rparr>)"
    unfolding Fragment_add_def nd
    by (simp add: Let_def ds1 ds2 st2_def [symmetric] st3_def [symmetric] new_list_def
          n_def [symmetric] Fragment_init_def or_new_list_def r3 a1 a2 neq)
qed

text \<open>
  Claim C2. For two well-formed fragments \<open>f1\<close> and \<open>f2\<close> of a store, \<^verbatim>\<open>f1 + f2\<close> is a
  fragment whose \<^verbatim>\<open>comb\<close>, \<^verbatim>\<open>instances\<close>, \<^verbatim>\<open>memories\<close> and \<^verbatim>\<open>sim\<close> are the lists of
  \<open>f1\<close> followed by those of \<open>f2\<close>; the keys of its \<^verbatim>\<open>sync\<close> are the keys of either
  operand, and each key is bound to the list of \<open>f1\<close> followed by the list of \<open>f2\<close>,
  a missing key counting as the empty list. Every list and dict that existed before
  the merge has the contents it had, so \<open>f1\<close> and \<open>f2\<close> are unchanged; and every
  container of the result was created by the merge, so the result shares none with
  an operand. The result is well formed again.
\<close>

theorem Fragment_add_merge:
  assumes wf1: "well_formed st f1" and wf2: "well_formed st f2"
    and add: "Fragment_add st f1 f2 = (st', f3)"
  shows "list_at st' (comb_ref f3) = list_at st (comb_ref f1) @ list_at st (comb_ref f2)
       \<and> sync_keys st' f3 = sync_keys st f1 \<union> sync_keys st f2
       \<and> (\<forall>k. dict_lookup st' (sync_ref f3) k =
                (if k \<in> sync_keys st f1 \<union> sync_keys st f2
                 then Some (sync_list st f1 k @ sync_list st f2 k) else None))
       \<and> list_at st' (instances_ref f3) = list_at st (instances_ref f1) @ list_at st (instances_ref f2)
       \<and> list_at st' (memories_ref f3) = list_at st (memories_ref f1) @ list_at st (memories_ref f2)
       \<and> list_at st' (sim_ref f3) = list_at st (sim_ref f1) @ list_at st (sim_ref f2)
       \<and> (\<forall>r < next_ref st. list_at st' r = list_at st r \<and> dict_at st' r = dict_at st r)
       \<and> (\<forall>r \<in> containers st' f3. next_ref st \<le> r \<and> r < next_ref st')
       \<and> well_formed st' f3"
proof -
  define d where "d = next_ref st"
  define st3 where "st3 =
     extend_items
       (copy_items (st\<lparr>dict_at := (dict_at st)(next_ref st := []), next_ref := Suc (next_ref st)\<rparr>)
          (next_ref st) (dict_at st (sync_ref f1)))
       (next_ref st) (dict_at st (sync_ref f2))"
  define n where "n = next_ref st3"
  note R = Fragment_add_result [OF wf1 wf2, folded st3_def, folded n_def d_def]
  from R(1) add have st': "st' = st3\<lparr>list_at := (list_at st3)
                  (n := list_at st (comb_ref f1) @ list_at st (comb_ref f2),
                   Suc n := list_at st (instances_ref f1) @ list_at st (instances_ref f2),
                   Suc (Suc n) := list_at st (memories_ref f1) @ list_at st (memories_ref f2),
                   Suc (Suc (Suc n)) := list_at st (sim_ref f1) @ list_at st (sim_ref f2)),
                next_ref := Suc (Suc (Suc (Suc n)))\<rparr>"
    and f3: "f3 = \<lparr>comb_ref = n, sync_ref = d, instances_ref = Suc n, memories_ref = Suc (Suc n),
            sim_ref = Suc (Suc (Suc n))\<rparr>"
    by simp_all
  from R(2) have own: "\<forall>r \<in> snd ` set (dict_at st3 d). d < r \<and> r < n"
    and dk: "distinct (map fst (dict_at st3 d))"
    by (auto simp: owns_def n_def)
  note dn = R(3)
  have ds: "dict_at st' = dict_at st3" by (simp add: st')
  have low: "list_at st' r = list_at st3 r" if "r < n" for r using that by (simp add: st')
  have look: "dict_lookup st' d k = dict_lookup st3 d k" for k
  proof (cases "map_of (dict_at st3 d) k")
    case None
    then show ?thesis by (simp add: dict_lookup_def ds)
  next
    case (Some r)
    then have "r \<in> snd ` set (dict_at st3 d)" by (force dest: map_of_SomeD)
    with own have "r < n" by auto
    with Some low show ?thesis by (simp add: dict_lookup_def ds)
  qed
  have 1: "list_at st' (comb_ref f3) = list_at st (comb_ref f1) @ list_at st (comb_ref f2)"
    by (simp add: st' f3)
  have 3: "\<forall>k. dict_lookup st' (sync_ref f3) k =
                (if k \<in> sync_keys st f1 \<union> sync_keys st f2
                 then Some (sync_list st f1 k @ sync_list st f2 k) else None)"
    using R(5) look by (simp add: f3)
  have 2: "sync_keys st' f3 = sync_keys st f1 \<union> sync_keys st f2"
  proof -
    have "k \<in> sync_keys st' f3 \<longleftrightarrow> k \<in> sync_keys st f1 \<union> sync_keys st f2" for k
    proof -
      have "k \<in> sync_keys st' f3 \<longleftrightarrow> dict_lookup st' (sync_ref f3) k \<noteq> None"
        by (simp add: dict_lookup_None sync_keys_def)
      also have "\<dots> \<longleftrightarrow> k \<in> sync_keys st f1 \<union> sync_keys st f2"
        using 3 by simp
      finally show ?thesis .
    qed
    then show ?thesis by blast
  qed
  have 4: "list_at st' (instances_ref f3) = list_at st (instances_ref f1) @ list_at st (instances_ref f2)"
    by (simp add: st' f3)
  have 5: "list_at st' (memories_ref f3) = list_at st (memories_ref f1) @ list_at st (memories_ref f2)"
    by (simp add: st' f3)
  have 6: "list_at st' (sim_ref f3) = list_at st (sim_ref f1) @ list_at st (sim_ref f2)"
    by (simp add: st' f3)
  have 7: "\<forall>r < next_ref st. list_at st' r = list_at st r \<and> dict_at st' r = dict_at st r"
  proof (intro allI impI)
    fix r assume "r < next_ref st"
    then have rd: "r < d" by (simp add: d_def)
    with dn have "r < n" by simp
    with low have "list_at st' r = list_at st3 r" by simp
    with R(4) rd ds show "list_at st' r = list_at st r \<and> dict_at st' r = dict_at st r" by simp
  qed
  have c: "containers st' f3 = {n, d, Suc n, Suc (Suc n), Suc (Suc (Suc n))} \<union> snd ` set (dict_at st3 d)"
    by (simp add: containers_def f3 ds)
  have nx: "next_ref st' = Suc (Suc (Suc (Suc n)))" by (simp add: st')
  have 8: "\<forall>r \<in> containers st' f3. next_ref st \<le> r \<and> r < next_ref st'"
    using own dn unfolding c nx d_def [symmetric] by auto
  have 9: "well_formed st' f3"
    unfolding well_formed_def using 8 dk by (simp add: f3 ds)
  from 1 2 3 4 5 6 7 8 9 show ?thesis by blast
qed

theorem Fragment_add_merge_witness:
  "well_formed example_store example_f1 \<and> well_formed example_store example_f2
   \<and> snd (Fragment_add example_store example_f1 example_f2)
       = \<lparr>comb_ref = 16, sync_ref = 13, instances_ref = 17, memories_ref = 18, sim_ref = 19\<rparr>
   \<and> list_at (fst (Fragment_add example_store example_f1 example_f2)) 16 = [1, 2]
   \<and> dict_lookup (fst (Fragment_add example_store example_f1 example_f2)) 13 ''sys'' = Some [10, 20]
   \<and> dict_lookup (fst (Fragment_add example_store example_f1 example_f2)) 13 ''pix'' = Some [30]
   \<and> list_at (fst (Fragment_add example_store example_f1 example_f2)) 0 = [1]
   \<and> list_at (fst (Fragment_add example_store example_f1 example_f2)) 2 = [10]
   \<and> list_at (fst (Fragment_add example_store example_f1 example_f2)) 8 = [20]"
proof -
  have wf1: "well_formed example_store example_f1"
    by (simp add: well_formed_def containers_def example_store_def example_f1_def)
  have wf2: "well_formed example_store example_f2"
    by (simp add: well_formed_def containers_def example_store_def example_f2_def)
  have add: "Fragment_add example_store example_f1 example_f2
      = (fst (Fragment_add example_store example_f1 example_f2),
         snd (Fragment_add example_store example_f1 example_f2))"
    by simp
  have res: "snd (Fragment_add example_store example_f1 example_f2)
       = \<lparr>comb_ref = 16, sync_ref = 13, instances_ref = 17, memories_ref = 18, sim_ref = 19\<rparr>"
    by (simp add: Fragment_add_def Fragment_init_def or_new_list_def new_dict_def new_list_def
          dict_setitem_def defaultdict_getitem_def list_extend_def Let_def
          example_store_def example_f1_def example_f2_def)
  have k1: "sync_keys example_store example_f1 = {''sys''}"
    by (simp add: sync_keys_def example_store_def example_f1_def)
  have k2: "sync_keys example_store example_f2 = {''sys'', ''pix''}"
    by (auto simp: sync_keys_def example_store_def example_f2_def)
  have s1: "sync_list example_store example_f1 ''sys'' = [10]"
      "sync_list example_store example_f1 ''pix'' = []"
    by (simp_all add: sync_list_def dict_lookup_def example_store_def example_f1_def)
  have s2: "sync_list example_store example_f2 ''sys'' = [20]"
      "sync_list example_store example_f2 ''pix'' = [30]"
    by (simp_all add: sync_list_def dict_lookup_def example_store_def example_f2_def)
  have c: "list_at example_store 0 = [1]" "list_at example_store 6 = [2]"
      "list_at example_store 2 = [10]" "list_at example_store 8 = [20]"
      "next_ref example_store = 13"
      "comb_ref example_f1 = 0" "comb_ref example_f2 = 6"
    by (simp_all add: example_store_def example_f1_def example_f2_def)
  from Fragment_add_merge [OF wf1 wf2 add] wf1 wf2 res show ?thesis
    by (simp add: k1 k2 s1 s2 c)
qed

end
